theory Spec2Isabelle
  imports Complex_Main "HOL-Library.Word"
begin

section \<open>The jiggle scheduler of esp32-Mouse-Jiggler.ino\<close>

text \<open>
  The sketch is a single polling loop over a handful of globals. The model keeps the
  globals in one record, \<open>World\<close>, together with the two things the sketch talks
  to: the millisecond counter read by \<^verbatim>\<open>millis()\<close> and the outputs it produces (HID
  mouse reports and writes to the LED pin), kept as a trace in the order they are issued.

  \<^item> \<^verbatim>\<open>unsigned long\<close> is 32 bits wide on the ESP32-S3, so every timestamp is a
    \<open>32 word\<close> and \<open>+\<close>, \<open>-\<close> wrap around as in the sketch.
  \<^item> \<^verbatim>\<open>int\<close> fields are \<open>int\<close>: the values the sketch stores (pixel totals up to
    100 in magnitude, step counters up to 30) are far from the 32-bit limits.
  \<^item> \<^verbatim>\<open>float\<close> values are read as reals: \<^verbatim>\<open>cosf\<close> is \<open>cos\<close>, \<^verbatim>\<open>PI\<close> is \<open>pi\<close>, and
    the rounding of single-precision arithmetic is not modelled. Apart from the fact
    about the easing curve itself, the facts below use the easing value only at
    \<open>t = 1/2\<close> and \<open>t = 1\<close>, or multiplied by a zero total. There the products
    handed to \<^verbatim>\<open>lroundf\<close> are integers, half a unit away from the nearest point where
    it changes its result, so a single-precision error (below \<open>1e-5\<close> at this magnitude)
    does not change the rounded position.
  \<^item> \<^verbatim>\<open>Mouse.move\<close> is recorded with the \<^verbatim>\<open>int\<close> arguments the sketch passes.
  \<^item> Time passes in \<^verbatim>\<open>delay\<close> and between two calls of \<^verbatim>\<open>loop\<close>; the other
    statements of one call read the same counter value.
  \<^item> \<^verbatim>\<open>random\<close> belongs to the Arduino core. Each call consumes one raw draw of the
    generator, which the model takes as an argument.
\<close>

subsection \<open>Tunables\<close>

definition kMoveRangePx :: int where "kMoveRangePx = 100"
definition kMinPauseMs :: int where "kMinPauseMs = 22000"
definition kMaxPauseMs :: int where "kMaxPauseMs = 42000"
definition kMinSteps :: int where "kMinSteps = 20"
definition kMaxSteps :: int where "kMaxSteps = 30"
definition kStepInterval :: int where "kStepInterval = 5"
definition kHoursToRun :: real where "kHoursToRun = 8"

text \<open>
  \<^verbatim>\<open>limitMs = (unsigned long)(kHoursToRun * 60.0f * 60.0f * 1000.0f)\<close>. Every partial
  product (480, 28800, 28800000) is an integer with fewer than 24 significant bits, so
  the single-precision product is exact and the conversion truncates nothing.
\<close>

definition limitMs :: "32 word" where
  "limitMs = word_of_int \<lfloor>kHoursToRun * 60 * 60 * 1000\<rfloor>"

subsection \<open>State\<close>

datatype JiggleState = IDLE | MOVING

record MovementSession =
  totalDx :: int
  totalDy :: int
  steps :: int
  prevX :: int
  prevY :: int
  i :: int
  lastStepMs :: "32 word"

text \<open>What the sketch sends out: \<^verbatim>\<open>Mouse.move(dx, dy, 0, 0)\<close> and
  \<^verbatim>\<open>digitalWrite(kLedPin, level)\<close>.\<close>

datatype emission = MouseMove int int | LedWrite bool

record World =
  gState :: JiggleState
  gSession :: MovementSession
  gStartMs :: "32 word"
  gNextActionMs :: "32 word"
  clock :: "32 word"
  trace :: "emission list"

text \<open>The globals as their initialisers leave them, with the counter at \<open>c\<close>.\<close>

definition boot :: "32 word \<Rightarrow> World" where
  "boot c =
     \<lparr> gState = IDLE,
       gSession = \<lparr> totalDx = 0, totalDy = 0, steps = 0,
                    prevX = 0, prevY = 0, i = 0, lastStepMs = 0 \<rparr>,
       gStartMs = 0, gNextActionMs = 0, clock = c, trace = [] \<rparr>"

subsection \<open>Collaborators\<close>

definition millis :: "World \<Rightarrow> 32 word" where
  "millis w = clock w"

definition delay :: "32 word \<Rightarrow> World \<Rightarrow> World" where
  "delay ms w = w\<lparr>clock := clock w + ms\<rparr>"

text \<open>Time that passes between two polls.\<close>

definition elapse :: "32 word \<Rightarrow> World \<Rightarrow> World" where
  "elapse ms w = w\<lparr>clock := clock w + ms\<rparr>"

definition digitalWrite :: "bool \<Rightarrow> World \<Rightarrow> World" where
  "digitalWrite level w = w\<lparr>trace := trace w @ [LedWrite level]\<rparr>"

definition Mouse_move :: "int \<Rightarrow> int \<Rightarrow> World \<Rightarrow> World" where
  "Mouse_move dx dy w = w\<lparr>trace := trace w @ [MouseMove dx dy]\<rparr>"

text \<open>
  \<^verbatim>\<open>random(howsmall, howbig)\<close> of the Arduino core, which is not part of the sketch:
  \<open>howsmall\<close> when \<open>howsmall \<ge> howbig\<close>, otherwise
  \<^verbatim>\<open>random(howbig - howsmall) + howsmall\<close>, where \<^verbatim>\<open>random(n)\<close> is a raw value of the
  generator modulo \<open>n\<close>. The lower bound is inclusive and the upper bound exclusive,
  which is why \<^verbatim>\<open>beginSession\<close> passes \<^verbatim>\<open>kMoveRangePx + 1\<close> and \<^verbatim>\<open>kMaxSteps + 1\<close> to
  get \<open>-100 .. 100\<close> and \<open>20 .. 30\<close>. The argument \<open>r\<close> is the raw value.
\<close>

definition random_range :: "int \<Rightarrow> int \<Rightarrow> nat \<Rightarrow> int" where
  "random_range howsmall howbig r =
     (if howbig \<le> howsmall then howsmall
      else howsmall + int (r mod nat (howbig - howsmall)))"

text \<open>\<^verbatim>\<open>lroundf\<close>: to the nearest integer, halfway cases away from zero.\<close>

definition lroundf :: "real \<Rightarrow> int" where
  "lroundf x = (if 0 \<le> x then \<lfloor>x + 1 / 2\<rfloor> else - \<lfloor>1 / 2 - x\<rfloor>)"

subsection \<open>Helpers\<close>

definition easeCosine01 :: "real \<Rightarrow> real" where
  "easeCosine01 t = 0.5 * (1 - cos (pi * t))"

definition scheduleNextIdleWindow :: "nat \<Rightarrow> World \<Rightarrow> World" where
  "scheduleNextIdleWindow r w =
     w\<lparr>gNextActionMs := millis w + word_of_int (random_range kMinPauseMs kMaxPauseMs r)\<rparr>"

definition beginSession :: "nat \<times> nat \<times> nat \<Rightarrow> World \<Rightarrow> World" where
  "beginSession rs w =
     (case rs of (r1, r2, r3) \<Rightarrow>
        w\<lparr>gSession := (gSession w)
             \<lparr>totalDx := random_range (- kMoveRangePx) (kMoveRangePx + 1) r1,
              totalDy := random_range (- kMoveRangePx) (kMoveRangePx + 1) r2,
              steps := random_range kMinSteps (kMaxSteps + 1) r3,
              prevX := 0, prevY := 0, i := 0, lastStepMs := 0\<rparr>,
          gState := MOVING\<rparr>)"

text \<open>
  The part of \<^verbatim>\<open>stepSessionIfDue\<close> after the interval test (from
  \<^verbatim>\<open>gSession.lastStepMs = now\<close> to the end): one micro-step. For \<open>steps = 0\<close> the
  sketch divides by zero in single precision and \<^verbatim>\<open>lroundf\<close> receives a NaN; the
  facts below about positions all assume \<open>steps \<ge> 1\<close>.
\<close>

definition performStep :: "nat \<Rightarrow> 32 word \<Rightarrow> World \<Rightarrow> bool \<times> World" where
  "performStep r now w =
     (let s = (gSession w)\<lparr>lastStepMs := now\<rparr>;
          nextIndex = i s + 1;
          t = real_of_int nextIndex / real_of_int (steps s);
          e = easeCosine01 t;
          xPos = lroundf (real_of_int (totalDx s) * e);
          yPos = lroundf (real_of_int (totalDy s) * e);
          dx = xPos - prevX s;
          dy = yPos - prevY s;
          w1 = (if dx \<noteq> 0 \<or> dy \<noteq> 0 then Mouse_move dx dy w else w);
          w2 = w1\<lparr>gSession := s\<lparr>prevX := xPos, prevY := yPos, i := nextIndex\<rparr>\<rparr>
      in if steps s \<le> nextIndex
         then (False,
               scheduleNextIdleWindow r
                 ((digitalWrite False (delay 100 (digitalWrite True w2)))\<lparr>gState := IDLE\<rparr>))
         else (True, w2))"

definition stepSessionIfDue :: "nat \<Rightarrow> World \<Rightarrow> bool \<times> World" where
  "stepSessionIfDue r w =
     (let now = millis w;
          w1 = (if i (gSession w) = 0
                then w\<lparr>gSession := (gSession w)\<lparr>lastStepMs := now\<rparr>\<rparr>
                else w)
      in if now - lastStepMs (gSession w1) < word_of_int kStepInterval
         then (True, w1)
         else performStep r now w1)"

subsection \<open>Arduino lifecycle\<close>

text \<open>\<^verbatim>\<open>setup\<close> without the USB bring-up and the seeding, which touch none of the
  globals; \<open>r\<close> is the draw of its \<^verbatim>\<open>scheduleNextIdleWindow\<close>.\<close>

definition setup_sketch :: "nat \<Rightarrow> World \<Rightarrow> World" where
  "setup_sketch r w =
     (let w1 = digitalWrite False w;
          w2 = w1\<lparr>gStartMs := millis w1\<rparr>
      in scheduleNextIdleWindow r w2)"

text \<open>One call of \<^verbatim>\<open>loop\<close>. \<open>rs\<close> holds the raw draws available to the call:
  \<^verbatim>\<open>beginSession\<close> takes all three, a completing step takes the first.\<close>

definition loop :: "nat \<times> nat \<times> nat \<Rightarrow> World \<Rightarrow> World" where
  "loop rs w =
     (let elapsedMs = millis w - gStartMs w
      in if limitMs \<le> elapsedMs
         then delay 1000 (digitalWrite True w)
         else (case gState w of
                 IDLE \<Rightarrow>
                   if gNextActionMs w \<le> millis w then beginSession rs w else delay 5 w
               | MOVING \<Rightarrow> delay 1 (snd (stepSessionIfDue (fst rs) w))))"

subsection \<open>Runs and reachable states\<close>

text \<open>
  The session of the sketch is a global that always exists. It is a live burst when it
  has steps left, that is when \<^verbatim>\<open>gSession.i < gSession.steps\<close>.
\<close>

definition sessionLive :: "World \<Rightarrow> bool" where
  "sessionLive w = (i (gSession w) < steps (gSession w))"

definition modeInvariant :: "World \<Rightarrow> bool" where
  "modeInvariant w = ((gState w = MOVING) = sessionLive w)"

text \<open>
  The states the sketch can be in: \<^verbatim>\<open>setup\<close> runs once on the freshly initialised
  globals, then \<^verbatim>\<open>loop\<close> is called again and again, with any raw draws, and any
  amount of time may pass between two calls.
\<close>

inductive reachable :: "World \<Rightarrow> bool" where
  start: "reachable (setup_sketch r (boot c))"
| poll: "reachable w \<Longrightarrow> reachable (loop rs w)"
| wait: "reachable w \<Longrightarrow> reachable (elapse ms w)"

text \<open>A sequence of polls: before each one \<open>ms\<close> milliseconds pass. The first
  calls \<^verbatim>\<open>stepSessionIfDue\<close> directly, the second the whole \<^verbatim>\<open>loop\<close>.\<close>

fun stepSessionRun :: "(32 word \<times> nat) list \<Rightarrow> World \<Rightarrow> World" where
  "stepSessionRun [] w = w"
| "stepSessionRun ((ms, r) # ps) w = stepSessionRun ps (snd (stepSessionIfDue r (elapse ms w)))"

fun run :: "(32 word \<times> nat \<times> nat \<times> nat) list \<Rightarrow> World \<Rightarrow> World" where
  "run [] w = w"
| "run ((ms, rs) # ps) w = run ps (loop rs (elapse ms w))"

text \<open>The displacement a trace adds up to, per axis.\<close>

fun sumDx :: "emission list \<Rightarrow> int" where
  "sumDx [] = 0"
| "sumDx (MouseMove dx dy # es) = dx + sumDx es"
| "sumDx (LedWrite level # es) = sumDx es"

fun sumDy :: "emission list \<Rightarrow> int" where
  "sumDy [] = 0"
| "sumDy (MouseMove dx dy # es) = dy + sumDy es"
| "sumDy (LedWrite level # es) = sumDy es"

text \<open>The cumulative position \<^verbatim>\<open>xPos\<close> / \<^verbatim>\<open>yPos\<close> that step \<open>k\<close> of \<open>n\<close> computes
  for a total of \<open>tot\<close>.\<close>

definition eased :: "int \<Rightarrow> int \<Rightarrow> int \<Rightarrow> int" where
  "eased tot k n = lroundf (real_of_int tot * easeCosine01 (real_of_int k / real_of_int n))"

text \<open>
  How a later state \<open>w'\<close> of the same burst relates to an earlier one \<open>w\<close>: the
  parameters are the same, what has been sent since matches the change of
  \<^verbatim>\<open>prevX\<close> / \<^verbatim>\<open>prevY\<close>, and either no step was taken or the position is the eased
  one of the current index.
\<close>

definition burstProgress :: "World \<Rightarrow> World \<Rightarrow> bool" where
  "burstProgress w w' =
     (let s = gSession w; s' = gSession w'
      in totalDx s' = totalDx s \<and> totalDy s' = totalDy s \<and> steps s' = steps s \<and>
         sumDx (trace w') - prevX s' = sumDx (trace w) - prevX s \<and>
         sumDy (trace w') - prevY s' = sumDy (trace w) - prevY s \<and>
         (i s' = i s \<and> prevX s' = prevX s \<and> prevY s' = prevY s \<and> gState w' = gState w \<or>
          i s < i s' \<and> prevX s' = eased (totalDx s) (i s') (steps s) \<and>
            prevY s' = eased (totalDy s) (i s') (steps s) \<and>
            (steps s \<le> i s' \<longrightarrow> gState w' = IDLE)))"

subsection \<open>States to evaluate at\<close>

text \<open>The burst of the two-step scenario (totals 10 and 0, two steps) before its
  first step, and after it.\<close>

definition freshBurst :: "32 word \<Rightarrow> World" where
  "freshBurst c =
     \<lparr> gState = MOVING,
       gSession = \<lparr> totalDx = 10, totalDy = 0, steps = 2,
                    prevX = 0, prevY = 0, i = 0, lastStepMs = 0 \<rparr>,
       gStartMs = 0, gNextActionMs = 22000, clock = c, trace = [] \<rparr>"

definition midBurst :: "32 word \<Rightarrow> World" where
  "midBurst c =
     \<lparr> gState = MOVING,
       gSession = \<lparr> totalDx = 10, totalDy = 0, steps = 2,
                    prevX = 5, prevY = 0, i = 1, lastStepMs = 1000 \<rparr>,
       gStartMs = 0, gNextActionMs = 22000, clock = c, trace = [MouseMove 5 0] \<rparr>"

text \<open>The sketch 30 seconds after a \<^verbatim>\<open>setup\<close> at counter 0, and the burst its next
  poll starts with the draws 110, 100 and 0 (totals 10 and 0, 20 steps).\<close>

definition idleAt30s :: World where
  "idleAt30s = elapse 30000 (setup_sketch 0 (boot 0))"

definition startedBurst :: World where
  "startedBurst = loop (110, 100, 0) idleAt30s"

text \<open>A \<^verbatim>\<open>setup\<close> ten seconds before the counter wraps.\<close>

definition lateStart :: World where
  "lateStart = setup_sketch 0 (boot 4294957296)"



section \<open>Properties\<close>

lemmas io_defs = millis_def delay_def elapse_def digitalWrite_def Mouse_move_def
  scheduleNextIdleWindow_def

lemma limitMs_eq: "limitMs = 28800000"
  by (simp add: limitMs_def kHoursToRun_def)

lemmas eval_defs = stepSessionIfDue_def performStep_def loop_def setup_sketch_def boot_def
  beginSession_def Let_def io_defs limitMs_eq kStepInterval_def easeCosine01_def lroundf_def
  random_range_def kMinPauseMs_def kMaxPauseMs_def kMoveRangePx_def kMinSteps_def kMaxSteps_def

subsection \<open>The evaluation states, computed\<close>

lemma idleAt30s_eq:
  "idleAt30s =
     \<lparr> gState = IDLE,
       gSession = \<lparr> totalDx = 0, totalDy = 0, steps = 0,
                    prevX = 0, prevY = 0, i = 0, lastStepMs = 0 \<rparr>,
       gStartMs = 0, gNextActionMs = 22000, clock = 30000, trace = [LedWrite False] \<rparr>"
  by (simp add: idleAt30s_def eval_defs)

lemma startedBurst_eq:
  "startedBurst =
     \<lparr> gState = MOVING,
       gSession = \<lparr> totalDx = 10, totalDy = 0, steps = 20,
                    prevX = 0, prevY = 0, i = 0, lastStepMs = 0 \<rparr>,
       gStartMs = 0, gNextActionMs = 22000, clock = 30000, trace = [LedWrite False] \<rparr>"
  by (simp add: startedBurst_def idleAt30s_eq) (simp add: eval_defs)


lemma reachable_idleAt30s: "reachable idleAt30s"
  unfolding idleAt30s_def by (intro reachable.wait reachable.start)

lemma reachable_startedBurst: "reachable startedBurst"
  unfolding startedBurst_def by (intro reachable.poll reachable_idleAt30s)

lemma reachable_lateStart: "reachable lateStart"
  unfolding lateStart_def by (rule reachable.start)

subsection \<open>The interval gate\<close>

lemma stepSessionIfDue_fresh:
  "i (gSession w) = 0 \<Longrightarrow>
     stepSessionIfDue r w = (True, w\<lparr>gSession := (gSession w)\<lparr>lastStepMs := millis w\<rparr>\<rparr>)"
  by (simp add: stepSessionIfDue_def Let_def kStepInterval_def)

lemma stepSessionRun_fresh:
  "i (gSession w) = 0 \<Longrightarrow>
     i (gSession (stepSessionRun ps w)) = 0 \<and> trace (stepSessionRun ps w) = trace w \<and>
     gState (stepSessionRun ps w) = gState w"
proof (induction ps arbitrary: w)
  case Nil
  then show ?case by simp
next
  case (Cons p ps)
  obtain ms r where p: "p = (ms, r)" by (cases p)
  let ?w1 = "snd (stepSessionIfDue r (elapse ms w))"
  have fresh: "i (gSession (elapse ms w)) = 0"
    using Cons.prems by (simp add: elapse_def)
  have w1: "i (gSession ?w1) = 0 \<and> trace ?w1 = trace w \<and> gState ?w1 = gState w"
    using Cons.prems by (simp add: stepSessionIfDue_fresh [OF fresh]) (simp add: elapse_def)
  show ?case
    using Cons.IH [of ?w1] w1 by (simp add: p)
qed

text \<open>
  C1. The sketch does not do what the claim says. When the step index is 0,
  \<^verbatim>\<open>stepSessionIfDue\<close> first sets \<^verbatim>\<open>lastStepMs = now\<close> (commented "start immediately")
  and then tests \<^verbatim>\<open>now - lastStepMs < kStepInterval\<close>, which is \<open>0 < 5\<close>: the call
  returns \<^verbatim>\<open>true\<close> without taking the step. The index is still 0 at the next call, so
  the same happens again: however often and whenever \<^verbatim>\<open>stepSessionIfDue\<close> is called on
  a fresh burst, the index stays 0 and nothing is sent.
\<close>

theorem fresh_burst_never_steps:
  assumes "i (gSession w) = 0"
  shows "stepSessionIfDue r w = (True, w\<lparr>gSession := (gSession w)\<lparr>lastStepMs := millis w\<rparr>\<rparr>) \<and>
         i (gSession (stepSessionRun ps w)) = 0 \<and>
         trace (stepSessionRun ps w) = trace w"
  using assms by (simp add: stepSessionIfDue_fresh stepSessionRun_fresh)

theorem fresh_burst_never_steps_witness:
  "i (gSession startedBurst) = 0 \<and>
   stepSessionIfDue 0 startedBurst =
     (True, startedBurst\<lparr>gSession := (gSession startedBurst)\<lparr>lastStepMs := 30000\<rparr>\<rparr>) \<and>
   i (gSession (stepSessionRun [(0, 0), (5, 0), (1000, 0)] startedBurst)) = 0 \<and>
   trace (stepSessionRun [(0, 0), (5, 0), (1000, 0)] startedBurst) = [LedWrite False]"
proof -
  have a: "i (gSession startedBurst) = 0"
    by (simp add: startedBurst_eq)
  have b: "millis startedBurst = 30000" "trace startedBurst = [LedWrite False]"
    by (simp_all add: startedBurst_eq millis_def)
  show ?thesis
    using a b fresh_burst_never_steps [OF a, of 0 "[(0, 0), (5, 0), (1000, 0)]"]
    by (simp del: stepSessionRun.simps)
qed

text \<open>
  C5. For a burst whose step index is at least 1, a call of \<^verbatim>\<open>stepSessionIfDue\<close>
  made less than \<^verbatim>\<open>kStepInterval\<close> milliseconds (counted modulo \<open>2^32\<close>) after the
  last step emits nothing, changes nothing and returns \<^verbatim>\<open>true\<close>.
\<close>

theorem stepSessionIfDue_not_due:
  assumes "1 \<le> i (gSession w)"
    and "millis w - lastStepMs (gSession w) < word_of_int kStepInterval"
  shows "stepSessionIfDue r w = (True, w)"
  using assms by (simp add: stepSessionIfDue_def Let_def)

theorem stepSessionIfDue_not_due_witness:
  "1 \<le> i (gSession (midBurst 1004)) \<and>
   millis (midBurst 1004) - lastStepMs (gSession (midBurst 1004)) < word_of_int kStepInterval \<and>
   stepSessionIfDue 7 (midBurst 1004) = (True, midBurst 1004)"
proof -
  have a: "1 \<le> i (gSession (midBurst 1004))"
    by (simp add: midBurst_def)
  have b: "millis (midBurst 1004) - lastStepMs (gSession (midBurst 1004))
      < word_of_int kStepInterval"
    by (simp add: midBurst_def millis_def kStepInterval_def)
  show ?thesis
    using a b stepSessionIfDue_not_due [OF a b, of 7] by simp
qed

subsection \<open>Mode and session agree\<close>

lemma random_range_steps:
  "kMinSteps \<le> random_range kMinSteps (kMaxSteps + 1) r \<and>
   random_range kMinSteps (kMaxSteps + 1) r \<le> kMaxSteps"
proof -
  have "r mod 11 < 11" by simp
  then show ?thesis
    by (simp add: random_range_def kMinSteps_def kMaxSteps_def)
qed

lemma modeInvariant_setup: "modeInvariant (setup_sketch r (boot c))"
  by (simp add: modeInvariant_def sessionLive_def setup_sketch_def boot_def io_defs Let_def)

lemma modeInvariant_beginSession: "modeInvariant (beginSession rs w)"
proof -
  obtain r1 r2 r3 where rs: "rs = (r1, r2, r3)" by (cases rs) auto
  have "0 < random_range kMinSteps (kMaxSteps + 1) r3"
    using random_range_steps [of r3] by (simp add: kMinSteps_def)
  then show ?thesis
    by (simp add: rs modeInvariant_def sessionLive_def beginSession_def)
qed

lemma modeInvariant_performStep:
  "modeInvariant w \<Longrightarrow> modeInvariant (snd (performStep r now w))"
  by (auto simp add: performStep_def modeInvariant_def sessionLive_def Let_def io_defs)

lemma modeInvariant_stepSessionIfDue:
  "modeInvariant w \<Longrightarrow> modeInvariant (snd (stepSessionIfDue r w))"
proof -
  assume inv: "modeInvariant w"
  let ?w1 = "w\<lparr>gSession := (gSession w)\<lparr>lastStepMs := millis w\<rparr>\<rparr>"
  have inv1: "modeInvariant ?w1"
    using inv by (simp add: modeInvariant_def sessionLive_def)
  show ?thesis
    using inv inv1 modeInvariant_performStep [of w r "millis w"]
      modeInvariant_performStep [of ?w1 r "millis w"]
    by (simp add: stepSessionIfDue_def Let_def)
qed

lemma modeInvariant_elapse: "modeInvariant (elapse ms w) = modeInvariant w"
  by (simp add: modeInvariant_def sessionLive_def elapse_def)

lemma modeInvariant_delay: "modeInvariant (delay ms w) = modeInvariant w"
  by (simp add: modeInvariant_def sessionLive_def delay_def)

lemma modeInvariant_digitalWrite: "modeInvariant (digitalWrite b w) = modeInvariant w"
  by (simp add: modeInvariant_def sessionLive_def digitalWrite_def)

lemma modeInvariant_loop: "modeInvariant w \<Longrightarrow> modeInvariant (loop rs w)"
  by (simp add: loop_def Let_def modeInvariant_delay modeInvariant_digitalWrite
      modeInvariant_beginSession modeInvariant_stepSessionIfDue split: JiggleState.split)

lemma reachable_modeInvariant: "reachable w \<Longrightarrow> modeInvariant w"
  by (induction rule: reachable.induct)
     (simp_all add: modeInvariant_setup modeInvariant_loop modeInvariant_elapse)

text \<open>
  C6. In every state the sketch can reach, the mode is \<open>MOVING\<close> exactly when the
  session has steps left and \<open>IDLE\<close> exactly when it has none. The state after
  \<^verbatim>\<open>setup\<close> and the state after \<^verbatim>\<open>beginSession\<close> satisfy this equivalence, and
  \<^verbatim>\<open>stepSessionIfDue\<close> and a whole \<^verbatim>\<open>loop\<close> call keep it. (\<^verbatim>\<open>gNextActionMs\<close> is a
  plain global: it holds a value in every state, assigned by \<^verbatim>\<open>setup\<close> before the
  first poll.)
\<close>

theorem mode_matches_session:
  "(reachable w \<longrightarrow>
      (gState w = MOVING \<longleftrightarrow> sessionLive w) \<and> (gState w = IDLE \<longleftrightarrow> \<not> sessionLive w)) \<and>
   modeInvariant (setup_sketch r (boot c)) \<and>
   modeInvariant (beginSession rs w) \<and>
   (modeInvariant w \<longrightarrow>
      modeInvariant (snd (stepSessionIfDue r w)) \<and> modeInvariant (loop rs w))"
proof -
  have "(gState w = MOVING) = sessionLive w \<and> (gState w = IDLE) = (\<not> sessionLive w)"
    if "reachable w"
  proof -
    have inv: "modeInvariant w"
      using that by (rule reachable_modeInvariant)
    then show ?thesis
      by (cases "gState w") (simp_all add: modeInvariant_def)
  qed
  then show ?thesis
    by (simp add: modeInvariant_setup modeInvariant_beginSession
        modeInvariant_stepSessionIfDue modeInvariant_loop)
qed

theorem mode_matches_session_witness:
  "reachable startedBurst \<and> gState startedBurst = MOVING \<and> sessionLive startedBurst \<and>
   reachable idleAt30s \<and> gState idleAt30s = IDLE \<and> \<not> sessionLive idleAt30s \<and>
   modeInvariant idleAt30s \<and> modeInvariant (loop (110, 100, 0) idleAt30s) \<and>
   gState (loop (110, 100, 0) idleAt30s) = MOVING"
proof -
  have m: "gState startedBurst = MOVING" "gState idleAt30s = IDLE"
    by (simp_all add: startedBurst_eq idleAt30s_eq)
  have inv: "modeInvariant idleAt30s"
    by (simp add: idleAt30s_eq modeInvariant_def sessionLive_def)
  note a = mode_matches_session [where w = startedBurst and r = 0 and c = 0 and rs = "(110, 100, 0)"]
  note b = mode_matches_session [where w = idleAt30s and r = 0 and c = 0 and rs = "(110, 100, 0)"]
  have "sessionLive startedBurst"
    using a m reachable_startedBurst by blast
  moreover have "\<not> sessionLive idleAt30s"
    using b m reachable_idleAt30s by blast
  moreover have "modeInvariant (loop (110, 100, 0) idleAt30s)"
    using b inv by blast
  moreover have "gState (loop (110, 100, 0) idleAt30s) = MOVING"
    using m by (simp add: startedBurst_def)
  ultimately show ?thesis
    using m inv reachable_startedBurst reachable_idleAt30s by blast
qed

subsection \<open>A started burst stalls\<close>

lemma loop_fresh:
  assumes "i (gSession w) = 0"
  shows "i (gSession (loop rs w)) = 0 \<and>
         (trace (loop rs w) = trace w \<or> trace (loop rs w) = trace w @ [LedWrite True])"
proof -
  obtain r1 r2 r3 where rs: "rs = (r1, r2, r3)" by (cases rs) auto
  show ?thesis
    using assms
    by (simp add: rs loop_def Let_def stepSessionIfDue_fresh beginSession_def io_defs
        split: JiggleState.split)
qed

lemma loop_stalled:
  assumes "gState w = MOVING" and "i (gSession w) = 0"
  shows "gState (loop rs w) = MOVING \<and> i (gSession (loop rs w)) = 0 \<and>
         gNextActionMs (loop rs w) = gNextActionMs w \<and>
         gStartMs (loop rs w) = gStartMs w \<and>
         (trace (loop rs w) = trace w \<or> trace (loop rs w) = trace w @ [LedWrite True])"
  using assms by (simp add: loop_def Let_def stepSessionIfDue_fresh io_defs)

lemma run_stalled:
  assumes "gState w = MOVING" and "i (gSession w) = 0"
  shows "gState (run ps w) = MOVING \<and> i (gSession (run ps w)) = 0 \<and>
         gNextActionMs (run ps w) = gNextActionMs w \<and>
         (\<exists>n. trace (run ps w) = trace w @ replicate n (LedWrite True))"
  using assms
proof (induction ps arbitrary: w)
  case Nil
  then show ?case by simp
next
  case (Cons p ps)
  obtain ms rs where p: "p = (ms, rs)" by (cases p)
  let ?w0 = "elapse ms w"
  let ?w1 = "loop rs ?w0"
  have e: "gState ?w0 = MOVING" "i (gSession ?w0) = 0"
    using Cons.prems by (simp_all add: elapse_def)
  note st = loop_stalled [OF e, of rs]
  from st obtain k where k: "trace ?w1 = trace w @ replicate k (LedWrite True)"
  proof (elim conjE disjE)
    assume "trace ?w1 = trace ?w0"
    then have "trace ?w1 = trace w @ replicate 0 (LedWrite True)"
      by (simp add: elapse_def)
    then show ?thesis by (rule that)
  next
    assume "trace ?w1 = trace ?w0 @ [LedWrite True]"
    then have "trace ?w1 = trace w @ replicate 1 (LedWrite True)"
      by (simp add: elapse_def)
    then show ?thesis by (rule that)
  qed
  have ih: "gState (run ps ?w1) = MOVING \<and> i (gSession (run ps ?w1)) = 0 \<and>
         gNextActionMs (run ps ?w1) = gNextActionMs ?w1 \<and>
         (\<exists>n. trace (run ps ?w1) = trace ?w1 @ replicate n (LedWrite True))"
    using st by (intro Cons.IH) simp_all
  then obtain n where n: "trace (run ps ?w1) = trace ?w1 @ replicate n (LedWrite True)"
    by blast
  have "trace (run ps ?w1) = trace w @ replicate (k + n) (LedWrite True)"
    by (simp add: n k replicate_add)
  then have "\<exists>m. trace (run ps ?w1) = trace w @ replicate m (LedWrite True)"
    by blast
  moreover have "gNextActionMs ?w1 = gNextActionMs w"
    using st by (simp add: elapse_def)
  ultimately show ?case
    using ih by (simp add: p)
qed

lemma sumDx_append: "sumDx (es @ fs) = sumDx es + sumDx fs"
  by (induction es rule: sumDx.induct) simp_all

lemma sumDy_append: "sumDy (es @ fs) = sumDy es + sumDy fs"
  by (induction es rule: sumDy.induct) simp_all

text \<open>Consequently no state the sketch reaches has taken a step or sent a report.\<close>

lemma reachable_never_moves:
  "reachable w \<Longrightarrow> i (gSession w) = 0 \<and> sumDx (trace w) = 0 \<and> sumDy (trace w) = 0 \<and>
     (\<forall>dx dy. MouseMove dx dy \<notin> set (trace w))"
proof (induction rule: reachable.induct)
  case (start r c)
  show ?case
    by (simp add: setup_sketch_def boot_def io_defs Let_def)
next
  case (poll w rs)
  then have f: "i (gSession w) = 0" by simp
  from loop_fresh [OF f, of rs] poll show ?case
    by (auto simp add: sumDx_append sumDy_append)
next
  case (wait w ms)
  then show ?case by (simp add: elapse_def)
qed

text \<open>The step itself handles zero totals as the claim says: it sends nothing, keeps
  the position at 0 and advances the index.\<close>

lemma performStep_zero_totals:
  assumes "totalDx (gSession w) = 0" and "totalDy (gSession w) = 0"
    and "prevX (gSession w) = 0" and "prevY (gSession w) = 0"
    and "i (gSession w) + 1 < steps (gSession w)"
  shows "performStep r now w =
           (True, w\<lparr>gSession := (gSession w)\<lparr>lastStepMs := now, i := i (gSession w) + 1\<rparr>\<rparr>)"
  using assms by (simp add: performStep_def Let_def lroundf_def)

text \<open>
  C10. The sketch does not do what the claim says. A burst started with both totals 0
  (draws 100 and 100, since \<open>-100 + 100 mod 201 = 0\<close>) is a fresh burst, and a fresh
  burst never gets past the interval gate (see C1). Whatever polls follow, the mode
  stays \<open>MOVING\<close>, the index stays 0, \<^verbatim>\<open>gNextActionMs\<close> is not rescheduled, and the
  only outputs are the \<^verbatim>\<open>digitalWrite(kLedPin, HIGH)\<close> of polls past the run budget:
  no report is sent (as claimed), but there is no completion, no pulse and no new idle
  window either.
\<close>

theorem zero_burst_stalls:
  "totalDx (gSession (beginSession (100, 100, r3) w0)) = 0 \<and>
   totalDy (gSession (beginSession (100, 100, r3) w0)) = 0 \<and>
   gState (run ps (beginSession (100, 100, r3) w0)) = MOVING \<and>
   i (gSession (run ps (beginSession (100, 100, r3) w0))) = 0 \<and>
   gNextActionMs (run ps (beginSession (100, 100, r3) w0)) = gNextActionMs w0 \<and>
   (\<exists>n. trace (run ps (beginSession (100, 100, r3) w0)) = trace w0 @ replicate n (LedWrite True))"
proof -
  let ?w = "beginSession (100, 100, r3) w0"
  have a: "gState ?w = MOVING" "i (gSession ?w) = 0"
    by (simp_all add: beginSession_def)
  have b: "gNextActionMs ?w = gNextActionMs w0" "trace ?w = trace w0"
    by (simp_all add: beginSession_def)
  have c: "totalDx (gSession ?w) = 0" "totalDy (gSession ?w) = 0"
    by (simp_all add: beginSession_def random_range_def kMoveRangePx_def)
  show ?thesis
    using run_stalled [OF a, of ps] b c by simp
qed

theorem zero_burst_stalls_witness:
  "loop (100, 100, 7) idleAt30s = beginSession (100, 100, 7) idleAt30s \<and>
   gState (run [(0, 0, 0, 0), (5, 0, 0, 0), (40000, 0, 0, 0)]
            (beginSession (100, 100, 7) idleAt30s)) = MOVING \<and>
   i (gSession (run [(0, 0, 0, 0), (5, 0, 0, 0), (40000, 0, 0, 0)]
            (beginSession (100, 100, 7) idleAt30s))) = 0 \<and>
   gNextActionMs (run [(0, 0, 0, 0), (5, 0, 0, 0), (40000, 0, 0, 0)]
            (beginSession (100, 100, 7) idleAt30s)) = 22000"
proof -
  have a: "gNextActionMs idleAt30s = 22000"
    by (simp add: idleAt30s_eq)
  have b: "loop (100, 100, 7) idleAt30s = beginSession (100, 100, 7) idleAt30s"
    by (simp add: idleAt30s_eq loop_def Let_def millis_def limitMs_eq)
  show ?thesis
    using a b
      zero_burst_stalls [of 7 idleAt30s "[(0, 0, 0, 0), (5, 0, 0, 0), (40000, 0, 0, 0)]"]
    by (simp del: run.simps)
qed

lemma sumDx_led: "sumDx (replicate n (LedWrite b)) = 0"
  by (induction n) simp_all

lemma sumDy_led: "sumDy (replicate n (LedWrite b)) = 0"
  by (induction n) simp_all





text \<open>
  C9. The sketch does not do what the claim says. The burst with totals 10 and 0 and
  two steps is at index 0, so \<^verbatim>\<open>stepSessionIfDue\<close> returns \<^verbatim>\<open>true\<close> without sending
  anything, at the first call and at every later one, called directly or through
  \<^verbatim>\<open>loop\<close>: the index stays 0 and no report is sent, where the claim has two reports
  \<open>(5, 0)\<close> and \<open>(5, 0)\<close>.
\<close>

theorem two_step_burst_sends_nothing:
  "fst (stepSessionIfDue r (freshBurst c)) = True \<and>
   trace (snd (stepSessionIfDue r (freshBurst c))) = [] \<and>
   i (gSession (stepSessionRun ps (freshBurst c))) = 0 \<and>
   trace (stepSessionRun ps (freshBurst c)) = [] \<and>
   gState (stepSessionRun ps (freshBurst c)) = MOVING \<and>
   i (gSession (run qs (freshBurst c))) = 0 \<and>
   sumDx (trace (run qs (freshBurst c))) = 0 \<and>
   sumDy (trace (run qs (freshBurst c))) = 0"
proof -
  have a: "gState (freshBurst c) = MOVING" "i (gSession (freshBurst c)) = 0"
    by (simp_all add: freshBurst_def)
  have t: "trace (freshBurst c) = []"
    by (simp add: freshBurst_def)
  note f = stepSessionIfDue_fresh [OF a(2), of r]
  note s = stepSessionRun_fresh [OF a(2), of ps]
  note r = run_stalled [OF a, of qs]
  from r obtain n where n: "trace (run qs (freshBurst c)) = replicate n (LedWrite True)"
    using t by auto
  show ?thesis
    using s r a t by (simp add: f n sumDx_led sumDy_led)
qed

theorem two_step_burst_sends_nothing_witness:
  "trace (stepSessionRun [(0, 0), (5, 0), (5, 0)] (freshBurst 30000)) = [] \<and>
   i (gSession (stepSessionRun [(0, 0), (5, 0), (5, 0)] (freshBurst 30000))) = 0 \<and>
   sumDx (trace (run [(0, 0, 0, 0), (5, 0, 0, 0), (5, 0, 0, 0)] (freshBurst 30000))) = 0"
  using two_step_burst_sends_nothing [of 0 30000 "[(0, 0), (5, 0), (5, 0)]"
      "[(0, 0, 0, 0), (5, 0, 0, 0), (5, 0, 0, 0)]"]
  by (simp del: run.simps stepSessionRun.simps)

subsection \<open>What a burst sends\<close>

lemma performStep_session:
  "gSession (snd (performStep r now w)) =
     (gSession w)\<lparr>lastStepMs := now,
       prevX := lroundf (real_of_int (totalDx (gSession w)) *
                  easeCosine01 (real_of_int (i (gSession w) + 1) / real_of_int (steps (gSession w)))),
       prevY := lroundf (real_of_int (totalDy (gSession w)) *
                  easeCosine01 (real_of_int (i (gSession w) + 1) / real_of_int (steps (gSession w)))),
       i := i (gSession w) + 1\<rparr>"
  by (simp add: performStep_def Let_def io_defs)

lemma performStep_sumDx:
  "sumDx (trace (snd (performStep r now w))) - prevX (gSession (snd (performStep r now w)))
     = sumDx (trace w) - prevX (gSession w)"
  by (simp add: performStep_def Let_def io_defs sumDx_append)

lemma performStep_sumDy:
  "sumDy (trace (snd (performStep r now w))) - prevY (gSession (snd (performStep r now w)))
     = sumDy (trace w) - prevY (gSession w)"
  by (simp add: performStep_def Let_def io_defs sumDy_append)

lemma performStep_gState:
  "steps (gSession w) \<le> i (gSession w) + 1 \<Longrightarrow> gState (snd (performStep r now w)) = IDLE"
  by (simp add: performStep_def Let_def io_defs)

lemma burstProgress_refl: "burstProgress w w"
  by (simp add: burstProgress_def)

lemma burstProgress_trans:
  "burstProgress a b \<Longrightarrow> burstProgress b c \<Longrightarrow> burstProgress a c"
  unfolding burstProgress_def Let_def by (elim conjE disjE) simp_all

lemma burstProgress_elapse: "burstProgress w (elapse ms w)"
  by (simp add: burstProgress_def elapse_def)

lemma burstProgress_performStep: "burstProgress w (snd (performStep r now w))"
proof -
  let ?w' = "snd (performStep r now w)"
  note s = performStep_session [of r now w]
  have x: "sumDx (trace ?w') - prevX (gSession ?w') = sumDx (trace w) - prevX (gSession w)"
    by (rule performStep_sumDx)
  have y: "sumDy (trace ?w') - prevY (gSession ?w') = sumDy (trace w) - prevY (gSession w)"
    by (rule performStep_sumDy)
  have g: "steps (gSession w) \<le> i (gSession ?w') \<longrightarrow> gState ?w' = IDLE"
    by (simp add: s performStep_gState)
  have "i (gSession w) < i (gSession ?w') \<and>
        prevX (gSession ?w') = eased (totalDx (gSession w)) (i (gSession ?w')) (steps (gSession w)) \<and>
        prevY (gSession ?w') = eased (totalDy (gSession w)) (i (gSession ?w')) (steps (gSession w)) \<and>
        totalDx (gSession ?w') = totalDx (gSession w) \<and>
        totalDy (gSession ?w') = totalDy (gSession w) \<and>
        steps (gSession ?w') = steps (gSession w)"
    by (simp add: s eased_def)
  then show ?thesis
    using x y g unfolding burstProgress_def Let_def by blast
qed

lemma burstProgress_stepSessionIfDue: "burstProgress w (snd (stepSessionIfDue r w))"
proof -
  let ?w1 = "w\<lparr>gSession := (gSession w)\<lparr>lastStepMs := millis w\<rparr>\<rparr>"
  have a: "burstProgress w ?w1"
    by (simp add: burstProgress_def)
  have b: "burstProgress ?w1 (snd (performStep r (millis w) ?w1))"
    by (rule burstProgress_performStep)
  have c: "burstProgress w (snd (performStep r (millis w) ?w1))"
    using a b by (rule burstProgress_trans)
  show ?thesis
    using a c burstProgress_refl [of w] burstProgress_performStep [of w r "millis w"]
    by (simp add: stepSessionIfDue_def Let_def)
qed

lemma burstProgress_stepSessionRun: "burstProgress w (stepSessionRun ps w)"
proof (induction ps arbitrary: w)
  case Nil
  show ?case by (simp add: burstProgress_refl)
next
  case (Cons p ps)
  obtain ms r where p: "p = (ms, r)" by (cases p)
  let ?w1 = "snd (stepSessionIfDue r (elapse ms w))"
  have "burstProgress w ?w1"
    using burstProgress_elapse burstProgress_stepSessionIfDue by (rule burstProgress_trans)
  then have "burstProgress w (stepSessionRun ps ?w1)"
    using Cons.IH [of ?w1] by (rule burstProgress_trans)
  then show ?case by (simp add: p)
qed

lemma easeCosine01_zero: "easeCosine01 0 = 0"
  by (simp add: easeCosine01_def)

lemma easeCosine01_half: "easeCosine01 (1 / 2) = 1 / 2"
  by (simp add: easeCosine01_def)

lemma easeCosine01_one: "easeCosine01 1 = 1"
  by (simp add: easeCosine01_def)

lemma lroundf_of_int: "lroundf (real_of_int n) = n"
  by (simp add: lroundf_def)

lemma eased_last: "n \<noteq> 0 \<Longrightarrow> eased tot n n = tot"
  by (simp add: eased_def easeCosine01_one lroundf_of_int)

text \<open>
  The arithmetic of the steps, for a burst that is past its first step. Take a burst
  with steps left (step count at least 1), in any state of progress, and any sequence
  of calls of \<^verbatim>\<open>stepSessionIfDue\<close>, at any times, after which the step index equals the
  step count. Then the position already sent (\<^verbatim>\<open>prevX\<close>, \<^verbatim>\<open>prevY\<close>) plus the deltas
  sent during those calls is exactly (\<^verbatim>\<open>totalDx\<close>, \<^verbatim>\<open>totalDy\<close>), and the mode is back
  to \<open>IDLE\<close>. Steps whose delta is (0, 0) send nothing and do not change the sum. No
  burst at index 0 gets that far, and no state the sketch reaches is past index 0.
\<close>

theorem burst_total_displacement:
  assumes "1 \<le> steps (gSession w)"
    and "i (gSession w) < steps (gSession w)"
    and "i (gSession (stepSessionRun ps w)) = steps (gSession w)"
  shows "prevX (gSession w) + (sumDx (trace (stepSessionRun ps w)) - sumDx (trace w))
           = totalDx (gSession w) \<and>
         prevY (gSession w) + (sumDy (trace (stepSessionRun ps w)) - sumDy (trace w))
           = totalDy (gSession w) \<and>
         gState (stepSessionRun ps w) = IDLE"
proof -
  have "burstProgress w (stepSessionRun ps w)"
    by (rule burstProgress_stepSessionRun)
  then show ?thesis
    using assms by (auto simp add: burstProgress_def Let_def eased_last)
qed

lemma midBurst_run:
  "stepSessionRun [(3, 0), (2, 0)] (midBurst 1000) =
     \<lparr> gState = IDLE,
       gSession = \<lparr> totalDx = 10, totalDy = 0, steps = 2,
                    prevX = 10, prevY = 0, i = 2, lastStepMs = 1005 \<rparr>,
       gStartMs = 0, gNextActionMs = 23105, clock = 1105,
       trace = [MouseMove 5 0, MouseMove 5 0, LedWrite True, LedWrite False] \<rparr>"
  by (simp add: midBurst_def eval_defs)

theorem burst_total_displacement_witness:
  "1 \<le> steps (gSession (midBurst 1000)) \<and>
   i (gSession (midBurst 1000)) < steps (gSession (midBurst 1000)) \<and>
   i (gSession (stepSessionRun [(3, 0), (2, 0)] (midBurst 1000))) = steps (gSession (midBurst 1000)) \<and>
   trace (midBurst 1000) = [MouseMove 5 0] \<and>
   trace (stepSessionRun [(3, 0), (2, 0)] (midBurst 1000)) =
     [MouseMove 5 0, MouseMove 5 0, LedWrite True, LedWrite False] \<and>
   prevX (gSession (midBurst 1000)) +
     (sumDx (trace (stepSessionRun [(3, 0), (2, 0)] (midBurst 1000))) - sumDx (trace (midBurst 1000)))
     = 10"
proof -
  have a: "1 \<le> steps (gSession (midBurst 1000))"
    by (simp add: midBurst_def)
  have b: "i (gSession (midBurst 1000)) < steps (gSession (midBurst 1000))"
    by (simp add: midBurst_def)
  have c: "i (gSession (stepSessionRun [(3, 0), (2, 0)] (midBurst 1000)))
      = steps (gSession (midBurst 1000))"
    by (simp only: midBurst_run) (simp add: midBurst_def)
  have d: "totalDx (gSession (midBurst 1000)) = 10" "trace (midBurst 1000) = [MouseMove 5 0]"
    by (simp_all add: midBurst_def)
  show ?thesis
    using a b c d burst_total_displacement [OF a b c]
    by (simp add: midBurst_run del: stepSessionRun.simps)
qed

text \<open>
  The step body on the two-step burst, the interval gate put aside (the sketch cannot
  execute it this way). The first step (index 1, \<open>t = 1/2\<close>, eased progress \<open>1/2\<close>)
  would send \<open>(5, 0)\<close>; the second (index 2, \<open>t = 1\<close>, eased progress 1), taken
  through \<^verbatim>\<open>stepSessionIfDue\<close> 5 ms later, would send \<open>(5, 0)\<close> and complete the burst.
\<close>

theorem two_step_burst_deltas:
  "performStep 0 30000 (freshBurst 30000) =
     (True, (freshBurst 30000)
        \<lparr>gSession := \<lparr> totalDx = 10, totalDy = 0, steps = 2,
                       prevX = 5, prevY = 0, i = 1, lastStepMs = 30000 \<rparr>,
         trace := [MouseMove 5 0]\<rparr>) \<and>
   stepSessionIfDue 0 (elapse 5 (snd (performStep 0 30000 (freshBurst 30000)))) =
     (False, (freshBurst 30000)
        \<lparr>gState := IDLE,
         gSession := \<lparr> totalDx = 10, totalDy = 0, steps = 2,
                       prevX = 10, prevY = 0, i = 2, lastStepMs = 30005 \<rparr>,
         gNextActionMs := 52105, clock := 30105,
         trace := [MouseMove 5 0, MouseMove 5 0, LedWrite True, LedWrite False]\<rparr>) \<and>
   easeCosine01 (1 / 2) = 1 / 2 \<and> easeCosine01 1 = 1"
  by (simp add: freshBurst_def eval_defs)

theorem two_step_burst_deltas_witness:
  "trace (snd (stepSessionIfDue 0 (elapse 5 (snd (performStep 0 30000 (freshBurst 30000))))))
     = [MouseMove 5 0, MouseMove 5 0, LedWrite True, LedWrite False] \<and>
   sumDx (trace (snd (stepSessionIfDue 0 (elapse 5 (snd (performStep 0 30000 (freshBurst 30000)))))))
     = 10 \<and>
   sumDy (trace (snd (stepSessionIfDue 0 (elapse 5 (snd (performStep 0 30000 (freshBurst 30000)))))))
     = 0"
proof -
  note second = two_step_burst_deltas [THEN conjunct2, THEN conjunct1]
  show ?thesis
    by (simp only: second) simp
qed

subsection \<open>The easing curve\<close>

text \<open>
  C8. With single-precision values read as reals, \<^verbatim>\<open>easeCosine01\<close> is the curve
  \<open>0.5 * (1 - cos (pi * t))\<close>; it is 0 at 0 and 1 at 1, it does not decrease on
  \<open>[0, 1]\<close>, and it stays within \<open>[0, 1]\<close> there.
\<close>

theorem easeCosine01_curve:
  assumes "0 \<le> s" and "s \<le> t" and "t \<le> 1"
  shows "easeCosine01 t = 0.5 * (1 - cos (pi * t)) \<and>
         easeCosine01 0 = 0 \<and> easeCosine01 1 = 1 \<and>
         easeCosine01 s \<le> easeCosine01 t \<and>
         0 \<le> easeCosine01 t \<and> easeCosine01 t \<le> 1"
proof -
  have "0 \<le> pi * s" using assms by simp
  moreover have "pi * s \<le> pi * t" using assms by simp
  moreover have "pi * t \<le> pi" using assms by simp
  ultimately have "cos (pi * t) \<le> cos (pi * s)"
    by (rule cos_monotone_0_pi_le)
  then show ?thesis
    using cos_ge_minus_one [of "pi * t"] cos_le_one [of "pi * t"]
    by (simp add: easeCosine01_def)
qed

theorem easeCosine01_curve_witness:
  "(0::real) \<le> 0 \<and> (0::real) \<le> 1 / 2 \<and> (1 / 2 :: real) \<le> 1 \<and>
   easeCosine01 0 = 0 \<and> easeCosine01 (1 / 2) = 1 / 2 \<and> easeCosine01 1 = 1 \<and>
   easeCosine01 0 \<le> easeCosine01 (1 / 2)"
proof -
  have a: "(0::real) \<le> 0" "(0::real) \<le> 1 / 2" "(1 / 2 :: real) \<le> 1"
    by simp_all
  show ?thesis
    using easeCosine01_curve [OF a] easeCosine01_half by simp
qed

subsection \<open>The idle window\<close>

lemma random_range_pause:
  "random_range kMinPauseMs kMaxPauseMs r = 22000 + int (r mod 20000)"
  by (simp add: random_range_def kMinPauseMs_def kMaxPauseMs_def)

lemma random_range_pause_bounds:
  "kMinPauseMs \<le> random_range kMinPauseMs kMaxPauseMs r \<and>
   random_range kMinPauseMs kMaxPauseMs r < kMaxPauseMs"
proof -
  have "r mod 20000 < 20000" by simp
  then show ?thesis
    by (simp only: random_range_pause) (simp add: kMinPauseMs_def kMaxPauseMs_def)
qed

lemma uint_word_of_int_32:
  "0 \<le> k \<Longrightarrow> k < 4294967296 \<Longrightarrow> uint (word_of_int k :: 32 word) = k"
  by (simp only: uint_word_of_int_eq) (simp add: take_bit_int_eq_self)

text \<open>
  C7. The sketch does not do what the claim says about the range of the draw.
  \<^verbatim>\<open>scheduleNextIdleWindow\<close> sets the deadline to \<^verbatim>\<open>millis()\<close> plus
  \<^verbatim>\<open>random(kMinPauseMs, kMaxPauseMs)\<close>, modulo \<open>2^32\<close>. The pause is at least
  \<^verbatim>\<open>kMinPauseMs\<close> and strictly below \<^verbatim>\<open>kMaxPauseMs\<close>: the largest pause is 41999 (raw
  draw 19999), the next raw draw gives 22000 again, and 42000 is never drawn. The other
  draws of the sketch pass their maximum plus one.
\<close>

theorem pause_below_kMaxPauseMs:
  "gNextActionMs (scheduleNextIdleWindow r w)
     = millis w + word_of_int (random_range kMinPauseMs kMaxPauseMs r) \<and>
   uint (gNextActionMs (scheduleNextIdleWindow r w) - millis w)
     = random_range kMinPauseMs kMaxPauseMs r \<and>
   kMinPauseMs \<le> random_range kMinPauseMs kMaxPauseMs r \<and>
   random_range kMinPauseMs kMaxPauseMs r < kMaxPauseMs \<and>
   random_range kMinPauseMs kMaxPauseMs 19999 = 41999 \<and>
   random_range kMinPauseMs kMaxPauseMs 20000 = 22000"
proof -
  note b = random_range_pause_bounds [of r]
  have "0 \<le> random_range kMinPauseMs kMaxPauseMs r"
    using b by (simp add: kMinPauseMs_def)
  moreover have "random_range kMinPauseMs kMaxPauseMs r < 4294967296"
    using b by (simp add: kMaxPauseMs_def)
  ultimately have u: "uint (word_of_int (random_range kMinPauseMs kMaxPauseMs r) :: 32 word)
      = random_range kMinPauseMs kMaxPauseMs r"
    by (rule uint_word_of_int_32)
  have d: "gNextActionMs (scheduleNextIdleWindow r w) - millis w
      = word_of_int (random_range kMinPauseMs kMaxPauseMs r)"
    by (simp add: scheduleNextIdleWindow_def millis_def)
  have e: "random_range kMinPauseMs kMaxPauseMs 19999 = 41999"
    "random_range kMinPauseMs kMaxPauseMs 20000 = 22000"
    by (simp_all add: random_range_pause)
  show ?thesis
    using b e by (simp only: d u) (simp add: scheduleNextIdleWindow_def millis_def)
qed

theorem pause_below_kMaxPauseMs_witness:
  "gNextActionMs (scheduleNextIdleWindow 19999 (boot 1000)) = 42999 \<and>
   gNextActionMs (scheduleNextIdleWindow 20000 (boot 1000)) = 23000"
  using pause_below_kMaxPauseMs [of 19999 "boot 1000"]
    pause_below_kMaxPauseMs [of 20000 "boot 1000"]
  by (simp add: millis_def boot_def)

subsection \<open>The run budget\<close>

text \<open>
  C3, as the sketch has it. At every poll at which \<^verbatim>\<open>millis() - gStartMs\<close>, computed
  modulo \<open>2^32\<close>, is at least \<^verbatim>\<open>limitMs\<close> (equality included), \<^verbatim>\<open>loop\<close> writes the LED
  high, waits a second and returns: it sends no report and leaves mode, session,
  schedule and start time as they are, whatever they are. The test is made afresh at
  every poll and nothing records that it once succeeded.
\<close>

theorem budget_reached_poll:
  assumes "limitMs \<le> millis w - gStartMs w"
  shows "loop rs w = delay 1000 (digitalWrite True w) \<and>
         trace (loop rs w) = trace w @ [LedWrite True] \<and>
         gState (loop rs w) = gState w \<and> gSession (loop rs w) = gSession w \<and>
         gNextActionMs (loop rs w) = gNextActionMs w \<and> gStartMs (loop rs w) = gStartMs w"
  using assms by (simp add: loop_def Let_def io_defs)

theorem budget_reached_poll_witness:
  "limitMs \<le> millis (midBurst 28800000) - gStartMs (midBurst 28800000) \<and>
   millis (midBurst 28800000) - gStartMs (midBurst 28800000) = limitMs \<and>
   trace (loop (0, 0, 0) (midBurst 28800000)) = [MouseMove 5 0, LedWrite True] \<and>
   gState (loop (0, 0, 0) (midBurst 28800000)) = MOVING"
proof -
  have a: "limitMs \<le> millis (midBurst 28800000) - gStartMs (midBurst 28800000)"
    by (simp add: midBurst_def millis_def limitMs_eq)
  have b: "trace (midBurst 28800000) = [MouseMove 5 0]" "gState (midBurst 28800000) = MOVING"
    "millis (midBurst 28800000) - gStartMs (midBurst 28800000) = limitMs"
    by (simp_all add: midBurst_def millis_def limitMs_eq)
  show ?thesis
    using a b budget_reached_poll [OF a, of "(0, 0, 0)"] by (simp add: io_defs)
qed

text \<open>
  The claim as stated fails: the budget condition is left again without a restart.
  After a \<^verbatim>\<open>setup\<close> at counter 0 the poll at 28800000 ms is past the budget. The
  counter wraps after \<open>2^32\<close> ms; 4266188296 ms after that poll it reads 22000 again,
  the test fails, and \<^verbatim>\<open>loop\<close> starts a burst.
\<close>

theorem budget_left_after_wrap:
  "limitMs \<le> millis (elapse 28800000 (setup_sketch 0 (boot 0)))
             - gStartMs (elapse 28800000 (setup_sketch 0 (boot 0))) \<and>
   gState (loop (0, 0, 0) (elapse 28800000 (setup_sketch 0 (boot 0)))) = IDLE \<and>
   \<not> limitMs \<le> millis (elapse 4266188296 (loop (0, 0, 0) (elapse 28800000 (setup_sketch 0 (boot 0)))))
             - gStartMs (elapse 4266188296 (loop (0, 0, 0) (elapse 28800000 (setup_sketch 0 (boot 0))))) \<and>
   gState (loop (0, 0, 0) (elapse 4266188296
            (loop (0, 0, 0) (elapse 28800000 (setup_sketch 0 (boot 0)))))) = MOVING"
  by (simp add: eval_defs)

subsection \<open>Time comparisons and the wrapping counter\<close>









end
